theory Spec2Isabelle
  imports
    Main
    "HOL-Library.AList"
    "HOL-Library.Char_ord"
    "HOL-Library.List_Lexorder"
    "HOL-Library.Multiset"
begin

section \<open>Text\<close>

text \<open>
  A Python \<open>str\<close> is a \<^typ>\<open>string\<close>. A \<^typ>\<open>char\<close> stands for one code point below
  256, so \<^const>\<open>length\<close> is Python's \<open>len\<close> and the order of \<open>Char_ord\<close> and
  \<open>List_Lexorder\<close> is Python's comparison of strings. The functions of this section agree
  with Python's on every such string.
\<close>

text \<open>The code points below 256 that \<open>str.split()\<close> and \<open>str.strip()\<close> treat as white space.\<close>

definition is_space :: "char \<Rightarrow> bool" where
  "is_space c \<longleftrightarrow>
     c \<in> set [CHR 0x09, CHR 0x0A, CHR 0x0B, CHR 0x0C, CHR 0x0D,
               CHR 0x1C, CHR 0x1D, CHR 0x1E, CHR 0x1F, CHR 0x20, CHR 0x85, CHR 0xA0]"

text \<open>
  \<open>s.split()\<close>: the maximal runs of characters that are not white space. The first argument
  holds the run being read, reversed.
\<close>

fun split_ws :: "string \<Rightarrow> string \<Rightarrow> string list" where
  "split_ws cur [] = (if cur = [] then [] else [rev cur])"
| "split_ws cur (c # cs) =
     (if is_space c then (if cur = [] then split_ws [] cs else rev cur # split_ws [] cs)
      else split_ws (c # cur) cs)"

text \<open>\<open>sep.join(xs)\<close>.\<close>

fun join :: "'a list \<Rightarrow> 'a list list \<Rightarrow> 'a list" where
  "join sep [] = []"
| "join sep [x] = x"
| "join sep (x # y # ys) = x @ sep @ join sep (y # ys)"

text \<open>\<open>" ".join(str(name).strip().split())\<close>; \<open>split()\<close> already drops what \<open>strip()\<close> removes.\<close>

definition strip :: "string \<Rightarrow> string" where
  "strip s = rev (dropWhile is_space (rev (dropWhile is_space s)))"

definition normalize_name :: "string \<Rightarrow> string" where
  "normalize_name name = join '' '' (split_ws [] (strip name))"

text \<open>
  \<open>s.lower()\<close>: the upper-case letters below 256 are A to Z and U+00C0 to U+00DE without
  U+00D7; each has its lower-case letter 32 places on.
\<close>

definition upper_letters :: string where
  "upper_letters = ''ABCDEFGHIJKLMNOPQRSTUVWXYZ'' @
     [CHR 0xC0, CHR 0xC1, CHR 0xC2, CHR 0xC3, CHR 0xC4, CHR 0xC5, CHR 0xC6, CHR 0xC7,
      CHR 0xC8, CHR 0xC9, CHR 0xCA, CHR 0xCB, CHR 0xCC, CHR 0xCD, CHR 0xCE, CHR 0xCF,
      CHR 0xD0, CHR 0xD1, CHR 0xD2, CHR 0xD3, CHR 0xD4, CHR 0xD5, CHR 0xD6,
      CHR 0xD8, CHR 0xD9, CHR 0xDA, CHR 0xDB, CHR 0xDC, CHR 0xDD, CHR 0xDE]"

definition lower_letters :: string where
  "lower_letters = ''abcdefghijklmnopqrstuvwxyz'' @
     [CHR 0xE0, CHR 0xE1, CHR 0xE2, CHR 0xE3, CHR 0xE4, CHR 0xE5, CHR 0xE6, CHR 0xE7,
      CHR 0xE8, CHR 0xE9, CHR 0xEA, CHR 0xEB, CHR 0xEC, CHR 0xED, CHR 0xEE, CHR 0xEF,
      CHR 0xF0, CHR 0xF1, CHR 0xF2, CHR 0xF3, CHR 0xF4, CHR 0xF5, CHR 0xF6,
      CHR 0xF8, CHR 0xF9, CHR 0xFA, CHR 0xFB, CHR 0xFC, CHR 0xFD, CHR 0xFE]"

definition lower_char :: "char \<Rightarrow> char" where
  "lower_char c = (case map_of (zip upper_letters lower_letters) c of None \<Rightarrow> c | Some l \<Rightarrow> l)"

definition lower :: "string \<Rightarrow> string" where
  "lower s = map lower_char s"

text \<open>\<open>s.split(sep)\<close> for a separator of one character: the pieces between the separators.\<close>

fun split_on :: "char \<Rightarrow> string \<Rightarrow> string \<Rightarrow> string list" where
  "split_on sep cur [] = [rev cur]"
| "split_on sep cur (c # cs) =
     (if c = sep then rev cur # split_on sep [] cs else split_on sep (c # cur) cs)"

text \<open>
  \<open>s.splitlines()\<close>: the line boundaries below 256 are LF, VT, FF, CR, FS, GS, RS and NEL,
  and CR LF counts once. A line that ends the text without a boundary is kept when it is
  not empty.
\<close>

definition is_linebreak :: "char \<Rightarrow> bool" where
  "is_linebreak c \<longleftrightarrow>
     c \<in> set [CHR 0x0A, CHR 0x0B, CHR 0x0C, CHR 0x0D, CHR 0x1C, CHR 0x1D, CHR 0x1E, CHR 0x85]"

fun splitlines :: "string \<Rightarrow> string \<Rightarrow> string list" where
  "splitlines cur [] = (if cur = [] then [] else [rev cur])"
| "splitlines cur [c] = (if is_linebreak c then [rev cur] else [rev (c # cur)])"
| "splitlines cur (c # d # cs) =
     (if c = CHR 0x0D \<and> d = CHR 0x0A then rev cur # splitlines [] cs
      else if is_linebreak c then rev cur # splitlines [] (d # cs)
      else splitlines (c # cur) (d # cs))"

section \<open>Dictionaries and sets\<close>

text \<open>
  A \<open>dict\<close> keeps its keys in the order of their insertion, and the code sorts key lists
  with a stable sort, so a dictionary is an association list: \<open>d[k] = v\<close> is
  \<^const>\<open>AList.update\<close> (a present key keeps its place, a new one goes last), \<open>del d[k]\<close> is
  \<^const>\<open>AList.delete\<close>, \<open>d.get(k)\<close> is \<^const>\<open>map_of\<close> and \<open>d.keys()\<close> is \<open>map fst\<close>.
  The keys of a dictionary are distinct.
\<close>

type_synonym 'v dict = "(string \<times> 'v) list"

abbreviation keys :: "'v dict \<Rightarrow> string list" where
  "keys d \<equiv> map fst d"

definition wf_dict :: "'v dict \<Rightarrow> bool" where
  "wf_dict d \<longleftrightarrow> distinct (keys d)"


text \<open>
  The order in which a \<open>set\<close> of strings is iterated depends on the hashes of its elements,
  which the code does not control. \<open>list(set(xs))\<close> is therefore \<open>it xs\<close> for an iteration
  order \<open>it\<close> that the functions take as their first argument; all that is known of it is
  that it lists each element of the set once.
\<close>

type_synonym set_iter = "string list \<Rightarrow> string list"

definition set_iter_ok :: "set_iter \<Rightarrow> bool" where
  "set_iter_ok it \<longleftrightarrow> (\<forall>xs. distinct (it xs) \<and> set (it xs) = set xs)"

text \<open>\<open>sorted(xs, key=lambda s: s.lower())\<close>; Python's sort is stable, as \<^const>\<open>sort_key\<close> is.\<close>

definition sorted_lower :: "string list \<Rightarrow> string list" where
  "sorted_lower xs = sort_key lower xs"

section \<open>The catalog\<close>

type_synonym catalog = "(string list) dict dict"

definition Uncategorized :: string where
  "Uncategorized = ''Uncategorized''"

definition sorted_unique :: "set_iter \<Rightarrow> string list \<Rightarrow> string list" where
  "sorted_unique it items =
     (let clean = map normalize_name (filter (\<lambda>x. normalize_name x \<noteq> []) items)
      in sorted_lower (it clean))"

definition or_uncategorized :: "string \<Rightarrow> string" where
  "or_uncategorized name = (if normalize_name name = [] then Uncategorized else normalize_name name)"

definition add_store :: "catalog \<Rightarrow> string \<Rightarrow> catalog" where
  "add_store stores store_name =
     (let store_name = normalize_name store_name
      in if store_name \<noteq> [] \<and> store_name \<notin> set (keys stores)
         then AList.update store_name [(Uncategorized, [])] stores
         else stores)"

definition add_category :: "catalog \<Rightarrow> string \<Rightarrow> string \<Rightarrow> catalog" where
  "add_category stores store_name category_name =
     (let store_name = normalize_name store_name;
          category_name = or_uncategorized category_name
      in case map_of stores store_name of
           None \<Rightarrow> stores
         | Some cats \<Rightarrow>
             if category_name \<notin> set (keys cats)
             then AList.update store_name (AList.update category_name [] cats) stores
             else stores)"

text \<open>The names that \<open>add_items\<close> reads from its text.\<close>

definition new_items :: "string \<Rightarrow> string list" where
  "new_items items_text =
     (let raw = map (\<lambda>c. if c = CHR 0x0A then CHR '','' else c) items_text;
          new_items = map normalize_name (split_on (CHR '','') [] raw)
      in filter (\<lambda>x. x \<noteq> []) new_items)"

definition add_items :: "set_iter \<Rightarrow> catalog \<Rightarrow> string \<Rightarrow> string \<Rightarrow> string \<Rightarrow> catalog" where
  "add_items it stores store_name category_name items_text =
     (let store_name = normalize_name store_name;
          category_name = or_uncategorized category_name
      in case map_of stores store_name of
           None \<Rightarrow> stores
         | Some cats \<Rightarrow>
             let cats = (if category_name \<notin> set (keys cats)
                         then AList.update category_name [] cats else cats);
                 merged = (case map_of cats category_name of None \<Rightarrow> [] | Some old \<Rightarrow> old)
                          @ new_items items_text
             in AList.update store_name
                  (AList.update category_name (sorted_lower (it merged)) cats) stores)"

definition remove_item :: "catalog \<Rightarrow> string \<Rightarrow> string \<Rightarrow> string \<Rightarrow> catalog" where
  "remove_item stores store_name category_name item =
     (case map_of stores store_name of
        None \<Rightarrow> stores
      | Some cats \<Rightarrow>
          (case map_of cats category_name of
             None \<Rightarrow> stores
           | Some items \<Rightarrow>
               AList.update store_name
                 (AList.update category_name (filter (\<lambda>x. x \<noteq> item) items) cats) stores))"

definition remove_category :: "catalog \<Rightarrow> string \<Rightarrow> string \<Rightarrow> catalog" where
  "remove_category stores store_name category_name =
     (case map_of stores store_name of
        None \<Rightarrow> stores
      | Some cats \<Rightarrow>
          if category_name \<in> set (keys cats) then
            (if length cats > 1
             then AList.update store_name (AList.delete category_name cats) stores
             else AList.update store_name [(Uncategorized, [])] stores)
          else stores)"

definition remove_store :: "catalog \<Rightarrow> string \<Rightarrow> catalog" where
  "remove_store stores store_name =
     (if store_name \<in> set (keys stores) then AList.delete store_name stores else stores)"

section \<open>Loading the catalog\<close>

text \<open>
  What \<open>json.load\<close> returns, as far as the code looks at it: an array, an object with its
  members in the order of the document, or anything else. The code applies \<open>str\<close> to each
  element of an array and reads nothing else of it, so an array is the list of those texts.
\<close>

datatype json = JList "string list" | JDict "(string \<times> json) list" | JOther

text \<open>A persisted document: no file, a file that \<open>json.load\<close> rejects, or the value it returns.\<close>

datatype document = Missing | Corrupt | Parsed json

definition DEFAULT_STORES :: catalog where
  "DEFAULT_STORES =
     [(''Costco'',
        [(''Bakery'', [''Bread'', ''Ritz Crackers'']),
         (''Dairy'', [''Eggs'', ''Milk'', ''Cheese'', ''Butter'', ''Dahi'']),
         (''Meat & Frozen'', [''Chicken'', ''Chicken nuggets'']),
         (''Pantry & Snacks'', [''Chips'', ''Juice'', ''Nuts'', ''Cooking oil'']),
         (''Household'', [''Toilet Paper'', ''Paper Towel''])]),
      (''Walmart'',
        [(''Pantry'', [''Tortillas'', ''Beans'', ''Pasta Noodles'', ''Sauces'', ''Sugar'']),
         (''Dairy'', [''Sour cream'']),
         (''Produce'', [''Veggies'', ''Fruits'', ''Tomato'', ''Potato'', ''Bell peppers'', ''Onion''])]),
      (''Indian Store'',
        [(''Staples'', [''Rice'', ''Daal'', ''Pulses'']),
         (''Spices'', [''Masalas'']),
         (''Convenience'', [''Maggie noodles'', ''Mango pulp''])]),
      (''Marianos'', [(''Uncategorized'', [])])]"

definition DEFAULT_STORE_ORDER :: "string list" where
  "DEFAULT_STORE_ORDER = [''Costco'', ''Walmart'', ''Indian Store'', ''Marianos'']"

text \<open>The body of the loop over the categories of a store given as an object.\<close>

definition convert_category :: "set_iter \<Rightarrow> (string list) dict \<Rightarrow> string \<times> json \<Rightarrow> (string list) dict" where
  "convert_category it cat_map entry =
     (case entry of
        (cat, JList items) \<Rightarrow> AList.update (or_uncategorized cat) (sorted_unique it items) cat_map
      | (cat, _) \<Rightarrow> cat_map)"

definition convert_payload :: "set_iter \<Rightarrow> json \<Rightarrow> (string list) dict" where
  "convert_payload it payload =
     (case payload of
        JList items \<Rightarrow> [(Uncategorized, sorted_unique it items)]
      | JDict cats \<Rightarrow>
          (let cat_map = foldl (convert_category it) [] cats
           in if cat_map = [] then [(Uncategorized, [])] else cat_map)
      | JOther \<Rightarrow> [(Uncategorized, [])])"

definition convert_store :: "set_iter \<Rightarrow> catalog \<Rightarrow> string \<times> json \<Rightarrow> catalog" where
  "convert_store it converted entry =
     (let store_name = normalize_name (fst entry)
      in if store_name = [] then converted
         else AList.update store_name (convert_payload it (snd entry)) converted)"

definition convert_legacy_shape :: "set_iter \<Rightarrow> (string \<times> json) list \<Rightarrow> catalog" where
  "convert_legacy_shape it data = foldl (convert_store it) [] data"

definition load_stores :: "set_iter \<Rightarrow> document \<Rightarrow> catalog" where
  "load_stores it file =
     (case file of
        Parsed (JDict raw) \<Rightarrow>
          (let cleaned = convert_legacy_shape it raw
           in if cleaned \<noteq> [] then cleaned else DEFAULT_STORES)
      | _ \<Rightarrow> DEFAULT_STORES)"

section \<open>The visit order\<close>

text \<open>
  \<open>for s in candidates: if s not in order: order.append(s)\<close>. Where the code keeps a set
  \<open>seen\<close> beside the list, the set holds the elements of the list.
\<close>

fun append_missing :: "string list \<Rightarrow> string list \<Rightarrow> string list" where
  "append_missing order [] = order"
| "append_missing order (s # ss) =
     append_missing (if s \<in> set order then order else order @ [s]) ss"

text \<open>The list read from the order document; empty when there is none to read.\<close>

definition read_store_order :: "document \<Rightarrow> string list" where
  "read_store_order meta =
     (case meta of
        Parsed (JDict d) \<Rightarrow>
          (case map_of d ''store_order'' of
             Some (JList xs) \<Rightarrow> map normalize_name (filter (\<lambda>x. normalize_name x \<noteq> []) xs)
           | _ \<Rightarrow> [])
      | _ \<Rightarrow> [])"

definition load_store_order :: "document \<Rightarrow> 'v dict \<Rightarrow> string list" where
  "load_store_order meta stores =
     (let order = read_store_order meta;
          order = (if order = [] then DEFAULT_STORE_ORDER else order);
          order = filter (\<lambda>s. s \<in> set (keys stores)) order
      in append_missing order (sorted_lower (keys stores)))"

definition parse_store_order_text :: "string \<Rightarrow> 'v dict \<Rightarrow> string list" where
  "parse_store_order_text text stores =
     (let lines = map normalize_name (splitlines [] text);
          lines = filter (\<lambda>x. x \<noteq> [] \<and> x \<in> set (keys stores)) lines;
          out = append_missing [] lines
      in append_missing out (sorted_lower (keys stores)))"

section \<open>The formatter\<close>

fun visit_listed :: "'v dict \<Rightarrow> string list \<Rightarrow> string list \<Rightarrow> string list" where
  "visit_listed stores out [] = out"
| "visit_listed stores out (s # ss) =
     visit_listed stores (if s \<in> set (keys stores) \<and> s \<notin> set out then out @ [s] else out) ss"

definition ordered_stores :: "string list \<Rightarrow> 'v dict \<Rightarrow> string list" where
  "ordered_stores store_order stores =
     append_missing (visit_listed stores [] store_order) (sorted_lower (keys stores))"

text \<open>The items of one store: flattened over its categories, normalized, as a sorted set.\<close>

definition all_items :: "set_iter \<Rightarrow> (string list) dict \<Rightarrow> string list" where
  "all_items it cat_map =
     (let flat = concat (map snd cat_map);
          clean = map normalize_name (filter (\<lambda>x. normalize_name x \<noteq> []) flat)
      in sorted_lower (it clean))"

text \<open>
  The two glyph constants of the source hold code points above 255, so the text of the
  formatter is a list of code points; \<open>cp\<close> reads a \<^typ>\<open>string\<close> as one. Each constant
  is written in the source with three code points.
\<close>

type_synonym ustring = "nat list"

definition cp :: "string \<Rightarrow> ustring" where
  "cp s = map of_char s"

definition CHECKBOX_BULLET :: ustring where
  "CHECKBOX_BULLET = [0x201A, 0xF2, 0xEA]"

definition UNDERLINE_CHAR :: ustring where
  "UNDERLINE_CHAR = [0x201A, 0xC4, 0xEE]"

text \<open>The code points that \<open>str.strip()\<close> removes, and \<open>strip()\<close> on a list of code points.\<close>

definition is_space_cp :: "nat \<Rightarrow> bool" where
  "is_space_cp n \<longleftrightarrow>
     n \<in> set [0x09, 0x0A, 0x0B, 0x0C, 0x0D, 0x1C, 0x1D, 0x1E, 0x1F, 0x20, 0x85, 0xA0,
               0x1680, 0x2000, 0x2001, 0x2002, 0x2003, 0x2004, 0x2005, 0x2006, 0x2007,
               0x2008, 0x2009, 0x200A, 0x2028, 0x2029, 0x202F, 0x205F, 0x3000]"

definition strip_cp :: "ustring \<Rightarrow> ustring" where
  "strip_cp s = rev (dropWhile is_space_cp (rev (dropWhile is_space_cp s)))"

text \<open>The lines that the formatter appends for a store that has items.\<close>

definition store_block :: "string \<Rightarrow> string list \<Rightarrow> ustring list" where
  "store_block store items =
     [cp (''*'' @ store @ ''*''),
      concat (replicate (max 6 (min 22 (length store + 2))) UNDERLINE_CHAR)]
     @ map (\<lambda>i. CHECKBOX_BULLET @ cp '' '' @ cp i) items
     @ [[]]"

definition selected_items :: "set_iter \<Rightarrow> catalog \<Rightarrow> string \<Rightarrow> string list" where
  "selected_items it selected store =
     all_items it (case map_of selected store of None \<Rightarrow> [] | Some cat_map \<Rightarrow> cat_map)"

text \<open>The loop over the stores in order; \<open>lines\<close> is the list built so far.\<close>

fun emit_stores :: "set_iter \<Rightarrow> catalog \<Rightarrow> ustring list \<Rightarrow> string list \<Rightarrow> ustring list" where
  "emit_stores it selected lines [] = lines"
| "emit_stores it selected lines (store # rest) =
     (let items = selected_items it selected store
      in if items = [] then emit_stores it selected lines rest
         else emit_stores it selected (lines @ store_block store items) rest)"

text \<open>
  The list \<open>lines\<close> at the end of the function, and the text returned. The first argument
  is the date as \<open>strftime\<close> gives it.
\<close>

definition format_lines :: "string \<Rightarrow> set_iter \<Rightarrow> catalog \<Rightarrow> string list \<Rightarrow> ustring list" where
  "format_lines today it selected store_order =
     emit_stores it selected [cp (''Shopping List - '' @ today), []]
       (ordered_stores store_order selected)"

definition format_shopping_list_for_whatsapp ::
    "string \<Rightarrow> set_iter \<Rightarrow> catalog \<Rightarrow> string list \<Rightarrow> ustring" where
  "format_shopping_list_for_whatsapp today it selected store_order =
     strip_cp (join [0x0A] (format_lines today it selected store_order))"

section \<open>The selection\<close>




section \<open>Well-formed catalogs\<close>

text \<open>The keys of a catalog and of each of its category maps are distinct, as a \<open>dict\<close>'s are.\<close>

definition wf_catalog :: "'a dict dict \<Rightarrow> bool" where
  "wf_catalog stores \<longleftrightarrow> wf_dict stores \<and> (\<forall>(store, cats) \<in> set stores. wf_dict cats)"

text \<open>Every store has at least one category.\<close>

definition has_categories :: "'a dict dict \<Rightarrow> bool" where
  "has_categories stores \<longleftrightarrow> (\<forall>(store, cats) \<in> set stores. cats \<noteq> [])"

definition catalog_inv :: "'a dict dict \<Rightarrow> bool" where
  "catalog_inv stores \<longleftrightarrow> wf_catalog stores \<and> has_categories stores"

section \<open>The words of the specification\<close>

text \<open>
  The specification has \<open>addItems\<close> split its text on commas and newlines, both taken as
  separators. The first argument holds the piece being read, reversed.
\<close>

fun split_commas_newlines :: "string \<Rightarrow> string \<Rightarrow> string list" where
  "split_commas_newlines cur [] = [rev cur]"
| "split_commas_newlines cur (c # cs) =
     (if c = CHR '','' \<or> c = CHR 0x0A then rev cur # split_commas_newlines [] cs
      else split_commas_newlines (c # cur) cs)"

text \<open>\<open>stores[store][cat]\<close> where both keys are there.\<close>

definition lookup_items :: "'a dict dict \<Rightarrow> string \<Rightarrow> string \<Rightarrow> 'a option" where
  "lookup_items stores store cat =
     (case map_of stores store of None \<Rightarrow> None | Some cats \<Rightarrow> map_of cats cat)"

text \<open>
  An order document without a list to read: no file, a file that is not JSON, a document
  that is not an object, or an object whose \<open>store_order\<close> is not an array.
\<close>

definition no_order_list :: "document \<Rightarrow> bool" where
  "no_order_list meta \<longleftrightarrow>
     (case meta of
        Parsed (JDict d) \<Rightarrow> (case map_of d ''store_order'' of Some (JList xs) \<Rightarrow> False | _ \<Rightarrow> True)
      | _ \<Rightarrow> True)"

text \<open>
  The item set of a store in the selection given to the formatter: the items of all its
  categories, normalized, without the empty name.
\<close>

definition item_set :: "catalog \<Rightarrow> string \<Rightarrow> string set" where
  "item_set selected store =
     (case map_of selected store of
        None \<Rightarrow> {}
      | Some cat_map \<Rightarrow> normalize_name ` set (concat (map snd cat_map)) - {[]})"

text \<open>The stores that have an item to show, in the order of the output.\<close>

definition shown_stores :: "set_iter \<Rightarrow> catalog \<Rightarrow> string list \<Rightarrow> string list" where
  "shown_stores it selected store_order =
     filter (\<lambda>store. selected_items it selected store \<noteq> []) (ordered_stores store_order selected)"



section \<open>Association lists\<close>

lemma set_update_subset: "set (AList.update k v al) \<subseteq> insert (k, v) (set al)"
  by (induction al) auto

lemma set_delete_subset: "set (AList.delete k al) \<subseteq> set al"
  by (induction al) auto

lemma wf_dict_update: "wf_dict al \<Longrightarrow> wf_dict (AList.update k v al)"
  by (simp add: wf_dict_def distinct_update)

lemma wf_dict_delete: "wf_dict al \<Longrightarrow> wf_dict (AList.delete k al)"
  by (simp add: wf_dict_def distinct_delete)

lemma delete_nonempty:
  assumes "distinct (keys al)" and "1 < length al"
  shows "AList.delete k al \<noteq> []"
proof -
  from assms obtain x y zs where al: "al = x # y # zs"
    by (cases al; cases "tl al") auto
  with assms have "fst x \<noteq> fst y" by auto
  then show ?thesis by (auto simp: al)
qed

lemma has_categories_update:
  "has_categories stores \<Longrightarrow> v \<noteq> [] \<Longrightarrow> has_categories (AList.update k v stores)"
  using set_update_subset [of k v stores] by (auto simp: has_categories_def)

lemma has_categories_delete:
  "has_categories stores \<Longrightarrow> has_categories (AList.delete k stores)"
  using set_delete_subset [of k stores] by (auto simp: has_categories_def)

lemma wf_catalog_update:
  "wf_catalog stores \<Longrightarrow> wf_dict v \<Longrightarrow> wf_catalog (AList.update k v stores)"
  using set_update_subset [of k v stores]
  by (auto simp: wf_catalog_def wf_dict_def distinct_update)

lemma wf_catalog_delete:
  "wf_catalog stores \<Longrightarrow> wf_catalog (AList.delete k stores)"
  using set_delete_subset [of k stores]
  by (auto simp: wf_catalog_def wf_dict_def distinct_delete)

lemma wf_catalog_lookup:
  "wf_catalog stores \<Longrightarrow> map_of stores k = Some cats \<Longrightarrow> wf_dict cats"
  by (auto simp: wf_catalog_def dest: map_of_SomeD)

section \<open>The catalog operations keep the catalog well formed\<close>

lemma add_store_inv:
  "has_categories stores \<Longrightarrow> has_categories (add_store stores n)"
  "wf_catalog stores \<Longrightarrow> wf_catalog (add_store stores n)"
  by (auto simp: add_store_def Let_def wf_dict_def intro!: has_categories_update wf_catalog_update)

lemma add_category_inv:
  "has_categories stores \<Longrightarrow> has_categories (add_category stores n c)"
  "wf_catalog stores \<Longrightarrow> wf_catalog (add_category stores n c)"
  by (auto simp: add_category_def Let_def split: option.splits
      intro!: has_categories_update wf_catalog_update wf_dict_update dest: wf_catalog_lookup)

lemma add_items_inv:
  "has_categories stores \<Longrightarrow> has_categories (add_items it stores n c t)"
  "wf_catalog stores \<Longrightarrow> wf_catalog (add_items it stores n c t)"
  by (auto simp: add_items_def Let_def split: option.splits
      intro!: has_categories_update wf_catalog_update wf_dict_update dest: wf_catalog_lookup)

lemma remove_item_inv:
  "has_categories stores \<Longrightarrow> has_categories (remove_item stores n c i)"
  "wf_catalog stores \<Longrightarrow> wf_catalog (remove_item stores n c i)"
  by (auto simp: remove_item_def Let_def split: option.splits
      intro!: has_categories_update wf_catalog_update wf_dict_update dest: wf_catalog_lookup)

lemma remove_category_wf:
  "wf_catalog stores \<Longrightarrow> wf_catalog (remove_category stores n c)"
  by (auto simp: remove_category_def wf_dict_def[of "[_]"] split: option.splits
      intro!: wf_catalog_update wf_dict_delete dest: wf_catalog_lookup)

lemma remove_category_inv:
  assumes "wf_catalog stores" and "has_categories stores"
  shows "has_categories (remove_category stores n c)"
proof (cases "map_of stores n")
  case None
  with assms show ?thesis by (simp add: remove_category_def)
next
  case (Some cats)
  with assms have "wf_dict cats" using wf_catalog_lookup by blast
  then have "1 < length cats \<Longrightarrow> AList.delete c cats \<noteq> []"
    by (simp add: wf_dict_def delete_nonempty)
  with assms Some show ?thesis
    by (auto simp: remove_category_def intro!: has_categories_update)
qed

lemma remove_store_inv:
  "has_categories stores \<Longrightarrow> has_categories (remove_store stores n)"
  "wf_catalog stores \<Longrightarrow> wf_catalog (remove_store stores n)"
  by (auto simp: remove_store_def intro!: has_categories_delete wf_catalog_delete)

lemma convert_category_wf: "wf_dict m \<Longrightarrow> wf_dict (convert_category it m e)"
  by (auto simp: convert_category_def split: prod.splits json.splits intro: wf_dict_update)

lemma foldl_convert_category_wf: "wf_dict m \<Longrightarrow> wf_dict (foldl (convert_category it) m cats)"
  by (induction cats arbitrary: m) (auto intro: convert_category_wf)

lemma convert_payload_inv:
  "convert_payload it payload \<noteq> []" "wf_dict (convert_payload it payload)"
  by (auto simp: convert_payload_def Let_def wf_dict_def[of "[_]"] split: json.splits
      intro!: foldl_convert_category_wf) (simp add: wf_dict_def)

lemma convert_store_inv:
  "has_categories acc \<Longrightarrow> has_categories (convert_store it acc e)"
  "wf_catalog acc \<Longrightarrow> wf_catalog (convert_store it acc e)"
  by (auto simp: convert_store_def Let_def convert_payload_inv
      intro!: has_categories_update wf_catalog_update)

lemma foldl_convert_store_inv:
  "has_categories acc \<Longrightarrow> has_categories (foldl (convert_store it) acc data)"
  "wf_catalog acc \<Longrightarrow> wf_catalog (foldl (convert_store it) acc data)"
  by (induction data arbitrary: acc) (auto intro: convert_store_inv)

lemma DEFAULT_STORES_inv: "has_categories DEFAULT_STORES" "wf_catalog DEFAULT_STORES"
  by (simp_all add: has_categories_def wf_catalog_def wf_dict_def DEFAULT_STORES_def)

lemma load_stores_inv:
  "has_categories (load_stores it file)" "wf_catalog (load_stores it file)"
  by (auto simp: load_stores_def convert_legacy_shape_def Let_def DEFAULT_STORES_inv
      has_categories_def[of "[]"] wf_catalog_def[of "[]"] wf_dict_def[of "[]"]
      split: document.splits json.splits intro!: foldl_convert_store_inv)

section \<open>Removing a store's only category\<close>

text \<open>
  C1, as the specification states it: removing the only category of a store keeps that
  category, with an empty item list. The code puts a category named \<open>Uncategorized\<close> in its
  place: after removing \<open>Dairy\<close>, the only category of store \<open>S\<close>, the store has no
  category \<open>Dairy\<close>.
\<close>

theorem remove_only_category_renames:
  "map_of (remove_category [(''S'', [(''Dairy'', [''Milk''])])] ''S'' ''Dairy'') ''S''
     = Some [(''Uncategorized'', [])]
   \<and> map_of (remove_category [(''S'', [(''Dairy'', [''Milk''])])] ''S'' ''Dairy'') ''S''
     \<noteq> Some [(''Dairy'', [])]"
  by (simp add: remove_category_def Uncategorized_def)

text \<open>
  C1, amended: when the named category is the only category of the named store,
  \<open>remove_category\<close> leaves the store with exactly one category, named \<open>Uncategorized\<close>,
  whose item list is empty; the stores of the catalog and their order stay as they were,
  and so does every other store.
\<close>

theorem remove_only_category:
  assumes "map_of stores store_name = Some [(category_name, items)]"
  shows "map_of (remove_category stores store_name category_name) store_name
           = Some [(''Uncategorized'', [])]
         \<and> keys (remove_category stores store_name category_name) = keys stores
         \<and> (\<forall>other. other \<noteq> store_name \<longrightarrow>
              map_of (remove_category stores store_name category_name) other
                = map_of stores other)"
proof -
  from assms have "store_name \<in> set (keys stores)"
    by (metis domI dom_map_of_conv_image_fst set_map)
  with assms show ?thesis
    by (simp add: remove_category_def Uncategorized_def update_conv' update_keys)
qed

theorem remove_only_category_witness:
  "map_of [(''S'', [(''Dairy'', [''Milk''])]), (''T'', [(''Bakery'', [])])] ''S''
     = Some [(''Dairy'', [''Milk''])]
   \<and> remove_category [(''S'', [(''Dairy'', [''Milk''])]), (''T'', [(''Bakery'', [])])]
        ''S'' ''Dairy''
     = [(''S'', [(''Uncategorized'', [])]), (''T'', [(''Bakery'', [])])]"
  using remove_only_category
    [of "[(''S'', [(''Dairy'', [''Milk''])]), (''T'', [(''Bakery'', [])])]" "''S''"
        "''Dairy''" "[''Milk'']"]
  by (simp add: remove_category_def Uncategorized_def)

section \<open>Every store has a category\<close>

text \<open>
  C9, as the specification states it: \<open>remove_category\<close> never deletes the last remaining
  category of a store. The code does delete it: store \<open>Costco\<close> has the single category
  \<open>Bakery\<close>, holding \<open>Bread\<close>, and after \<open>remove_category\<close> the store has no category
  \<open>Bakery\<close>; an empty category \<open>Uncategorized\<close> stands in its place.
\<close>

theorem remove_category_deletes_last_category:
  "lookup_items [(''Costco'', [(''Bakery'', [''Bread''])])] ''Costco'' ''Bakery'' = Some [''Bread'']
   \<and> lookup_items (remove_category [(''Costco'', [(''Bakery'', [''Bread''])])] ''Costco'' ''Bakery'')
       ''Costco'' ''Bakery'' = None
   \<and> keys (remove_category [(''Costco'', [(''Bakery'', [''Bread''])])] ''Costco'' ''Bakery'')
       = [''Costco'']"
  by (simp add: lookup_items_def remove_category_def Uncategorized_def)

text \<open>
  C9, amended: every store of the catalog has at least one category. The catalog that
  \<open>load_stores\<close> returns has the property, whatever the document (missing, corrupt, in the
  legacy shape or the nested one), and each operation that changes the catalog keeps it:
  \<open>add_store\<close> gives a new store the single category \<open>Uncategorized\<close>, and
  \<open>remove_category\<close> never leaves a store without a category. When the category it removes
  is the last remaining one of the store, that category is deleted and the store is left
  with the single category \<open>Uncategorized\<close>, with no item; when the store has other
  categories, the named one is deleted and the others stay as they were.
\<close>

theorem every_store_has_a_category:
  assumes "catalog_inv stores"
  shows "catalog_inv (load_stores it file)
       \<and> catalog_inv (add_store stores name)
       \<and> catalog_inv (add_category stores name cat)
       \<and> catalog_inv (add_items it stores name cat text)
       \<and> catalog_inv (remove_item stores name cat item)
       \<and> catalog_inv (remove_category stores name cat)
       \<and> catalog_inv (remove_store stores name)
       \<and> (normalize_name name \<noteq> [] \<and> normalize_name name \<notin> set (keys stores) \<longrightarrow>
            map_of (add_store stores name) (normalize_name name) = Some [(''Uncategorized'', [])])
       \<and> (\<forall>cats. map_of (remove_category stores name cat) name = Some cats \<longrightarrow> cats \<noteq> [])
       \<and> (\<forall>items. map_of stores name = Some [(cat, items)] \<longrightarrow>
            map_of (remove_category stores name cat) name = Some [(''Uncategorized'', [])])
       \<and> (\<forall>cats. map_of stores name = Some cats \<and> cat \<in> set (keys cats) \<and> length cats > 1 \<longrightarrow>
            map_of (remove_category stores name cat) name = Some (AList.delete cat cats))"
proof -
  from assms have wf: "wf_catalog stores" and hc: "has_categories stores"
    by (simp_all add: catalog_inv_def)
  have "has_categories (remove_category stores name cat)"
    using wf hc by (rule remove_category_inv)
  then have last: "\<forall>cats. map_of (remove_category stores name cat) name = Some cats \<longrightarrow> cats \<noteq> []"
    by (auto simp: has_categories_def dest: map_of_SomeD)
  have new: "normalize_name name \<noteq> [] \<and> normalize_name name \<notin> set (keys stores) \<longrightarrow>
      map_of (add_store stores name) (normalize_name name) = Some [(''Uncategorized'', [])]"
    by (simp add: add_store_def Let_def update_conv' Uncategorized_def)
  have only: "\<forall>items. map_of stores name = Some [(cat, items)] \<longrightarrow>
      map_of (remove_category stores name cat) name = Some [(''Uncategorized'', [])]"
    by (simp add: remove_category_def Uncategorized_def update_conv')
  have more: "\<forall>cats. map_of stores name = Some cats \<and> cat \<in> set (keys cats) \<and> length cats > 1 \<longrightarrow>
      map_of (remove_category stores name cat) name = Some (AList.delete cat cats)"
    by (simp add: remove_category_def update_conv')
  have invs: "catalog_inv (load_stores it file)
       \<and> catalog_inv (add_store stores name)
       \<and> catalog_inv (add_category stores name cat)
       \<and> catalog_inv (add_items it stores name cat text)
       \<and> catalog_inv (remove_item stores name cat item)
       \<and> catalog_inv (remove_category stores name cat)
       \<and> catalog_inv (remove_store stores name)"
    unfolding catalog_inv_def
    using wf hc
    by (simp add: load_stores_inv add_store_inv add_category_inv add_items_inv
        remove_item_inv remove_category_wf remove_category_inv remove_store_inv)
  from invs new last only more show ?thesis by blast
qed

theorem every_store_has_a_category_witness:
  "catalog_inv [(''S'', [(''Dairy'', [''Milk'']), (''Bakery'', [])]), (''T'', [(''Fish'', [''Cod''])])]
   \<and> catalog_inv (remove_category
        [(''S'', [(''Dairy'', [''Milk'']), (''Bakery'', [])]), (''T'', [(''Fish'', [''Cod''])])]
        ''T'' ''Fish'')
   \<and> map_of (remove_category
        [(''S'', [(''Dairy'', [''Milk'']), (''Bakery'', [])]), (''T'', [(''Fish'', [''Cod''])])]
        ''T'' ''Fish'') ''T'' = Some [(''Uncategorized'', [])]
   \<and> map_of (remove_category
        [(''S'', [(''Dairy'', [''Milk'']), (''Bakery'', [])]), (''T'', [(''Fish'', [''Cod''])])]
        ''S'' ''Dairy'') ''S'' = Some [(''Bakery'', [])]
   \<and> catalog_inv (add_store
        [(''S'', [(''Dairy'', [''Milk'']), (''Bakery'', [])]), (''T'', [(''Fish'', [''Cod''])])]
        ''U'')
   \<and> map_of (add_store
        [(''S'', [(''Dairy'', [''Milk'']), (''Bakery'', [])]), (''T'', [(''Fish'', [''Cod''])])]
        ''U'') ''U'' = Some [(''Uncategorized'', [])]"
proof -
  let ?stores = "[(''S'', [(''Dairy'', [''Milk'']), (''Bakery'', [])]), (''T'', [(''Fish'', [''Cod''])])]"
  have inv: "catalog_inv ?stores"
    by (simp add: catalog_inv_def wf_catalog_def wf_dict_def has_categories_def)
  have name: "normalize_name ''U'' = ''U''"
    by (simp add: normalize_name_def strip_def is_space_def)
  from every_store_has_a_category [OF inv, of remdups Missing "''U''" "''Dairy''" "[]" "[]"]
    every_store_has_a_category [OF inv, of remdups Missing "''T''" "''Fish''" "[]" "[]"]
    every_store_has_a_category [OF inv, of remdups Missing "''S''" "''Dairy''" "[]" "[]"]
    inv name
  show ?thesis by simp
qed

section \<open>Lists, sets and text\<close>

lemma set_iter_ok_remdups: "set_iter_ok remdups"
  by (simp add: set_iter_ok_def)

lemma set_iter_okD: "set_iter_ok it \<Longrightarrow> distinct (it xs)" "set_iter_ok it \<Longrightarrow> set (it xs) = set xs"
  by (simp_all add: set_iter_ok_def)

lemma sorted_lower_props:
  "set (sorted_lower xs) = set xs" "distinct (sorted_lower xs) = distinct xs"
  "sorted (map lower (sorted_lower xs))" "mset (sorted_lower xs) = mset xs"
  by (simp_all add: sorted_lower_def)

lemma map_of_Some_key: "map_of al k = Some v \<Longrightarrow> k \<in> set (keys al)"
  by (metis domI dom_map_of_conv_image_fst set_map)

lemma append_missing_set: "set (append_missing order cs) = set order \<union> set cs"
  by (induction cs arbitrary: order) auto

lemma append_missing_distinct: "distinct order \<Longrightarrow> distinct (append_missing order cs)"
  by (induction cs arbitrary: order) auto

lemma append_missing_filter:
  "distinct cs \<Longrightarrow> append_missing order cs = order @ filter (\<lambda>s. s \<notin> set order) cs"
proof (induction cs arbitrary: order)
  case Nil
  then show ?case by simp
next
  case (Cons s ss)
  then have "filter (\<lambda>x. x \<noteq> s \<and> x \<notin> set order) ss = filter (\<lambda>x. x \<notin> set order) ss"
    by (auto intro: filter_cong)
  with Cons show ?case by simp
qed

lemma split_on_commas_newlines:
  "split_on (CHR '','') cur (map (\<lambda>c. if c = CHR 0x0A then CHR '','' else c) s)
     = split_commas_newlines cur s"
  by (induction s arbitrary: cur) auto

lemma read_store_order_none: "no_order_list meta \<Longrightarrow> read_store_order meta = []"
  by (auto simp: no_order_list_def read_store_order_def split: document.splits json.splits option.splits)

lemma eval_names:
  "normalize_name ''S'' = ''S''" "normalize_name ''T'' = ''T''"
  "normalize_name ''Dairy'' = ''Dairy''" "normalize_name ''Costco'' = ''Costco''"
  by (simp_all add: normalize_name_def strip_def is_space_def)

section \<open>Adding items\<close>

text \<open>
  C4: where the catalog has the named store (the name as \<open>add_items\<close> normalizes it), the
  category read after \<open>add_items\<close> holds the old items of the category (none if the
  category was not there) together with the new names, as a set, sorted by lower-case
  name. The new names are the pieces of the text between commas and newlines, normalized,
  without those that normalize to the empty name. The list is sorted by lower-case name,
  has no element twice, and its elements are the old items and the new names.
\<close>

theorem add_items_sorted_union:
  assumes "set_iter_ok it"
    and "normalize_name store_name \<in> set (keys stores)"
  shows "\<exists>items.
      lookup_items (add_items it stores store_name category_name text)
        (normalize_name store_name) (or_uncategorized category_name) = Some items
    \<and> items = sorted_lower (it
        ((case lookup_items stores (normalize_name store_name) (or_uncategorized category_name)
          of None \<Rightarrow> [] | Some old \<Rightarrow> old) @ new_items text))
    \<and> sorted (map lower items) \<and> distinct items
    \<and> set items =
        (case lookup_items stores (normalize_name store_name) (or_uncategorized category_name)
          of None \<Rightarrow> {} | Some old \<Rightarrow> set old)
        \<union> {normalize_name piece | piece.
             piece \<in> set (split_commas_newlines [] text) \<and> normalize_name piece \<noteq> []}"
proof -
  from assms(2) obtain cats where cats: "map_of stores (normalize_name store_name) = Some cats"
    by (metis map_of_eq_None_iff not_None_eq set_map)
  have new: "set (new_items text) = {normalize_name piece | piece.
             piece \<in> set (split_commas_newlines [] text) \<and> normalize_name piece \<noteq> []}"
    by (auto simp: new_items_def Let_def split_on_commas_newlines)
  show ?thesis
    using cats new assms(1)
    by (auto simp: add_items_def lookup_items_def Let_def update_conv' sorted_lower_props
        set_iter_okD map_of_eq_None_iff[symmetric] split: option.splits)
qed

theorem add_items_sorted_union_witness:
  "set_iter_ok remdups
   \<and> normalize_name '' S '' \<in> set (keys [(''S'', [(''Dairy'', [''Milk''])])])
   \<and> lookup_items (add_items remdups [(''S'', [(''Dairy'', [''Milk''])])] '' S '' ''Dairy''
        ''eggs, Apple\<newline> milk  x,,Milk'') ''S'' ''Dairy''
      = Some [''Apple'', ''eggs'', ''Milk'', ''milk x'']"
proof -
  have n: "normalize_name '' S '' = ''S''" "or_uncategorized ''Dairy'' = ''Dairy''"
    by (simp_all add: normalize_name_def or_uncategorized_def strip_def is_space_def)
  have mem: "normalize_name '' S '' \<in> set (keys [(''S'', [(''Dairy'', [''Milk''])])])"
    by (simp add: n)
  have new: "new_items ''eggs, Apple\<newline> milk  x,,Milk'' = [''eggs'', ''Apple'', ''milk x'', ''Milk'']"
    by (simp add: new_items_def normalize_name_def strip_def is_space_def)
  have sorted: "sorted_lower [''eggs'', ''Apple'', ''milk x'', ''Milk'']
      = [''Apple'', ''eggs'', ''Milk'', ''milk x'']"
    by (simp add: sorted_lower_def lower_def lower_char_def upper_letters_def lower_letters_def)
  from add_items_sorted_union [OF set_iter_ok_remdups mem, of "''Dairy''"
      "''eggs, Apple\<newline> milk  x,,Milk''"]
  show ?thesis
    using set_iter_ok_remdups mem
    by (simp add: n new sorted lookup_items_def)
qed

text \<open>
  C10: \<open>add_items\<close> changes the targeted category of the targeted store at most. Every other
  store keeps its category map, every other category keeps its item list (in the targeted
  store as in any other), and the stores stay in their order.
\<close>

theorem add_items_frame:
  "(other \<noteq> normalize_name store_name \<longrightarrow>
      map_of (add_items it stores store_name category_name text) other = map_of stores other)
   \<and> (cat \<noteq> or_uncategorized category_name \<longrightarrow>
      lookup_items (add_items it stores store_name category_name text) store cat
        = lookup_items stores store cat)
   \<and> keys (add_items it stores store_name category_name text) = keys stores"
  by (auto simp: add_items_def lookup_items_def Let_def update_conv' update_keys
      map_of_eq_None_iff[symmetric] split: option.splits)

theorem add_items_frame_witness:
  "''T'' \<noteq> normalize_name ''S'' \<and> ''Bakery'' \<noteq> or_uncategorized ''Dairy''
   \<and> map_of (add_items remdups [(''S'', [(''Dairy'', [''Milk'']), (''Bakery'', [''Bread''])]),
        (''T'', [(''Dairy'', [])])] ''S'' ''Dairy'' ''Eggs'') ''T'' = Some [(''Dairy'', [])]
   \<and> lookup_items (add_items remdups [(''S'', [(''Dairy'', [''Milk'']), (''Bakery'', [''Bread''])]),
        (''T'', [(''Dairy'', [])])] ''S'' ''Dairy'' ''Eggs'') ''S'' ''Bakery'' = Some [''Bread'']"
  using add_items_frame [of "''T''" "''S''" remdups
      "[(''S'', [(''Dairy'', [''Milk'']), (''Bakery'', [''Bread''])]), (''T'', [(''Dairy'', [])])]"
      "''Dairy''" "''Eggs''" "''Bakery''" "''S''"]
  by (simp add: eval_names or_uncategorized_def lookup_items_def)

section \<open>The visit order\<close>

text \<open>
  C5: for every text, \<open>parse_store_order_text\<close> returns a permutation of the store names
  of the catalog: each name once, and nothing else.
\<close>

theorem parse_store_order_text_perm:
  assumes "wf_dict stores"
  shows "mset (parse_store_order_text text stores) = mset (keys stores)"
proof -
  let ?r = "parse_store_order_text text stores"
  have d: "distinct ?r"
    by (simp add: parse_store_order_text_def Let_def append_missing_distinct)
  have s: "set ?r = set (keys stores)"
    by (auto simp: parse_store_order_text_def Let_def append_missing_set sorted_lower_props)
  from assms have "distinct (keys stores)" by (simp add: wf_dict_def)
  with d s show ?thesis
    using set_eq_iff_mset_eq_distinct by blast
qed

theorem parse_store_order_text_perm_witness:
  "wf_dict [(''Zed'', [(''Uncategorized'', [''x''])]), (''Alpha'', [])]
   \<and> mset (parse_store_order_text ''Zed\<newline>  nowhere \<newline>Zed\<newline>''
        [(''Zed'', [(''Uncategorized'', [''x''])]), (''Alpha'', [])]) = {#''Zed'', ''Alpha''#}"
proof -
  have wf: "wf_dict [(''Zed'', [(''Uncategorized'', [''x''])]), (''Alpha'', [])]"
    by (simp add: wf_dict_def)
  from parse_store_order_text_perm [OF wf, of "''Zed\<newline>  nowhere \<newline>Zed\<newline>''"] wf
  show ?thesis by simp
qed

text \<open>
  C6: when the order document is missing or has no list to read, \<open>load_store_order\<close>
  starts from \<open>DEFAULT_STORE_ORDER\<close>, keeps of it the names that are stores of the catalog,
  and appends the other stores of the catalog sorted by lower-case name. With the stores
  \<open>Zed\<close> and \<open>Alpha\<close> and a missing or corrupt document the order is \<open>Alpha\<close>, \<open>Zed\<close>.
\<close>

theorem load_store_order_default:
  assumes "wf_dict stores" and "no_order_list meta"
  shows "load_store_order meta stores
           = filter (\<lambda>s. s \<in> set (keys stores)) DEFAULT_STORE_ORDER
             @ filter (\<lambda>s. s \<notin> set DEFAULT_STORE_ORDER) (sorted_lower (keys stores))
       \<and> load_store_order Missing [(''Zed'', zed), (''Alpha'', alpha)] = [''Alpha'', ''Zed'']
       \<and> load_store_order Corrupt [(''Zed'', zed), (''Alpha'', alpha)] = [''Alpha'', ''Zed'']"
proof -
  have seed: "DEFAULT_STORE_ORDER \<noteq> []" by (simp add: DEFAULT_STORE_ORDER_def)
  from assms(1) have d: "distinct (sorted_lower (keys stores))"
    by (simp add: wf_dict_def sorted_lower_props)
  have same: "filter (\<lambda>s. s \<notin> set (filter (\<lambda>s. s \<in> set (keys stores)) DEFAULT_STORE_ORDER))
        (sorted_lower (keys stores))
      = filter (\<lambda>s. s \<notin> set DEFAULT_STORE_ORDER) (sorted_lower (keys stores))"
    by (rule filter_cong) (auto simp: sorted_lower_props)
  have general: "load_store_order meta stores
           = filter (\<lambda>s. s \<in> set (keys stores)) DEFAULT_STORE_ORDER
             @ filter (\<lambda>s. s \<notin> set DEFAULT_STORE_ORDER) (sorted_lower (keys stores))"
    using seed same
    by (simp add: load_store_order_def Let_def read_store_order_none [OF assms(2)]
        append_missing_filter [OF d])
  have sorted: "sorted_lower [''Zed'', ''Alpha''] = [''Alpha'', ''Zed'']"
    by (simp add: sorted_lower_def lower_def lower_char_def upper_letters_def lower_letters_def)
  have "load_store_order Missing [(''Zed'', zed), (''Alpha'', alpha)] = [''Alpha'', ''Zed'']"
    "load_store_order Corrupt [(''Zed'', zed), (''Alpha'', alpha)] = [''Alpha'', ''Zed'']"
    by (simp_all add: load_store_order_def read_store_order_def DEFAULT_STORE_ORDER_def sorted)
  with general show ?thesis by simp
qed

theorem load_store_order_default_witness:
  "wf_dict [(''Zed'', [(''Uncategorized'', [''x''])]), (''Costco'', []), (''Alpha'', [])]
   \<and> no_order_list (Parsed (JDict [(''store_order'', JOther)]))
   \<and> load_store_order (Parsed (JDict [(''store_order'', JOther)]))
        [(''Zed'', [(''Uncategorized'', [''x''])]), (''Costco'', []), (''Alpha'', [])]
      = [''Costco'', ''Alpha'', ''Zed'']"
proof -
  have wf: "wf_dict [(''Zed'', [(''Uncategorized'', [''x''])]), (''Costco'', []), (''Alpha'', [])]"
    by (simp add: wf_dict_def)
  have nol: "no_order_list (Parsed (JDict [(''store_order'', JOther)]))"
    by (simp add: no_order_list_def)
  have sorted: "sorted_lower [''Zed'', ''Costco'', ''Alpha''] = [''Alpha'', ''Costco'', ''Zed'']"
    by (simp add: sorted_lower_def lower_def lower_char_def upper_letters_def lower_letters_def)
  from load_store_order_default [OF wf nol, of "[] :: string list dict" "[] :: string list dict"]
    wf nol sorted
  show ?thesis by (simp add: DEFAULT_STORE_ORDER_def wf_dict_def)
qed

section \<open>Loading the scenario document\<close>

lemma set_iter_small:
  assumes "set_iter_ok it"
  shows "it [] = []" and "it [x] = [x]"
proof -
  from assms have "set (it []) = {}" by (simp add: set_iter_ok_def)
  then show "it [] = []" by simp
  from assms have d: "distinct (it [x])" and s: "set (it [x]) = {x}"
    by (simp_all add: set_iter_ok_def)
  then have "length (it [x]) = 1" using distinct_card [of "it [x]"] by simp
  then obtain y where "it [x] = [y]" by (cases "it [x]") auto
  with s show "it [x] = [x]" by simp
qed

lemma three_in_some_order:
  assumes "distinct xs" and "set xs = {a, b, c}" and "a \<noteq> b" and "a \<noteq> c" and "b \<noteq> c"
  shows "xs \<in> {[a, b, c], [a, c, b], [b, a, c], [b, c, a], [c, a, b], [c, b, a]}"
proof -
  from assms have "length xs = 3" using distinct_card [of xs] by simp
  then obtain x y z where xs: "xs = [x, y, z]"
    by (auto simp: numeral_3_eq_3 length_Suc_conv)
  with assms(2) have "x \<in> {a, b, c}" "y \<in> {a, b, c}" "z \<in> {a, b, c}" by auto
  with assms(1) xs show ?thesis by auto
qed

lemma eval_items:
  "normalize_name ''Milk'' = ''Milk''" "normalize_name ''milk'' = ''milk''"
  "normalize_name ''  Eggs '' = ''Eggs''"
  by (simp_all add: normalize_name_def strip_def is_space_def)

lemma eval_lower:
  "lower ''Milk'' = ''milk''" "lower ''milk'' = ''milk''" "lower ''Eggs'' = ''eggs''"
  by (simp_all add: lower_def lower_char_def upper_letters_def lower_letters_def)

text \<open>
  C2, as the specification states it: after loading the document, the category \<open>Dairy\<close> of
  \<open>Costco\<close> holds the two items \<open>Eggs\<close> and \<open>Milk\<close>. The code compares the normalized names
  as they are written, so \<open>Milk\<close> and \<open>milk\<close> both stay and the category holds three items.
\<close>

theorem load_costco_dairy_three_items:
  "lookup_items
     (load_stores remdups
        (Parsed (JDict [(''Costco'', JDict [(''Dairy'', JList [''Milk'', ''milk'', ''  Eggs ''])])])))
     ''Costco'' ''Dairy'' = Some [''Eggs'', ''Milk'', ''milk'']
   \<and> lookup_items
     (load_stores remdups
        (Parsed (JDict [(''Costco'', JDict [(''Dairy'', JList [''Milk'', ''milk'', ''  Eggs ''])])])))
     ''Costco'' ''Dairy'' \<noteq> Some [''Eggs'', ''Milk'']"
  by (simp add: load_stores_def convert_legacy_shape_def convert_store_def convert_payload_def
      convert_category_def or_uncategorized_def sorted_unique_def sorted_lower_def
      lookup_items_def eval_names eval_items eval_lower)

text \<open>
  C2, amended: loading the document yields the store \<open>Costco\<close> with the category \<open>Dairy\<close>,
  which holds the three items \<open>Eggs\<close>, \<open>Milk\<close> and \<open>milk\<close>: normalized, without a name
  twice in the same spelling, and sorted by lower-case name, so \<open>Eggs\<close> comes first and
  \<open>Milk\<close> and \<open>milk\<close>, whose keys are equal, follow in the order of the set's iteration.
\<close>

theorem load_costco_dairy:
  assumes "set_iter_ok it"
  shows "\<exists>items.
      load_stores it
        (Parsed (JDict [(''Costco'', JDict [(''Dairy'', JList [''Milk'', ''milk'', ''  Eggs ''])])]))
        = [(''Costco'', [(''Dairy'', items)])]
      \<and> (items = [''Eggs'', ''Milk'', ''milk''] \<or> items = [''Eggs'', ''milk'', ''Milk''])"
proof -
  have loaded: "load_stores it
        (Parsed (JDict [(''Costco'', JDict [(''Dairy'', JList [''Milk'', ''milk'', ''  Eggs ''])])]))
      = [(''Costco'', [(''Dairy'', sorted_lower (it [''Milk'', ''milk'', ''Eggs'']))])]"
    by (simp add: load_stores_def convert_legacy_shape_def convert_store_def convert_payload_def
        convert_category_def or_uncategorized_def sorted_unique_def eval_names eval_items)
  from assms have "distinct (it [''Milk'', ''milk'', ''Eggs''])"
    and "set (it [''Milk'', ''milk'', ''Eggs'']) = {''Milk'', ''milk'', ''Eggs''}"
    by (simp_all add: set_iter_ok_def)
  then have "it [''Milk'', ''milk'', ''Eggs'']
      \<in> {[''Milk'', ''milk'', ''Eggs''], [''Milk'', ''Eggs'', ''milk''],
          [''milk'', ''Milk'', ''Eggs''], [''milk'', ''Eggs'', ''Milk''],
          [''Eggs'', ''Milk'', ''milk''], [''Eggs'', ''milk'', ''Milk'']}"
    by (rule three_in_some_order) simp_all
  then have "sorted_lower (it [''Milk'', ''milk'', ''Eggs'']) = [''Eggs'', ''Milk'', ''milk'']
      \<or> sorted_lower (it [''Milk'', ''milk'', ''Eggs'']) = [''Eggs'', ''milk'', ''Milk'']"
    by (auto simp: sorted_lower_def eval_lower)
  with loaded show ?thesis by simp
qed

theorem load_costco_dairy_witness:
  "set_iter_ok remdups
   \<and> load_stores remdups
        (Parsed (JDict [(''Costco'', JDict [(''Dairy'', JList [''Milk'', ''milk'', ''  Eggs ''])])]))
      = [(''Costco'', [(''Dairy'', [''Eggs'', ''Milk'', ''milk''])])]"
  using load_costco_dairy [OF set_iter_ok_remdups] set_iter_ok_remdups
  by (simp add: load_stores_def convert_legacy_shape_def convert_store_def convert_payload_def
      convert_category_def or_uncategorized_def sorted_unique_def sorted_lower_def
      eval_names eval_items eval_lower)

section \<open>The lines of the formatter\<close>

lemma visit_listed_set:
  "set (visit_listed stores out xs) = set out \<union> (set xs \<inter> set (keys stores))"
  by (induction xs arbitrary: out) auto

lemma visit_listed_distinct: "distinct out \<Longrightarrow> distinct (visit_listed stores out xs)"
  by (induction xs arbitrary: out) auto

lemma ordered_stores_set: "set (ordered_stores store_order stores) = set (keys stores)"
  by (auto simp: ordered_stores_def append_missing_set visit_listed_set sorted_lower_props)

lemma ordered_stores_distinct: "distinct (ordered_stores store_order stores)"
  by (simp add: ordered_stores_def append_missing_distinct visit_listed_distinct)

lemma emit_stores_blocks:
  "emit_stores it selected lines stores =
     lines @ concat (map (\<lambda>store. store_block store (selected_items it selected store))
       (filter (\<lambda>store. selected_items it selected store \<noteq> []) stores))"
  by (induction stores arbitrary: lines) (simp_all add: Let_def)

lemma selected_items_set:
  assumes "set_iter_ok it"
  shows "set (selected_items it selected store) = item_set selected store"
proof -
  have "set (all_items it cat_map) = normalize_name ` set (concat (map snd cat_map)) - {[]}"
    for cat_map
    using assms by (auto simp: all_items_def Let_def sorted_lower_props set_iter_okD)
  then show ?thesis
    by (simp add: selected_items_def item_set_def all_items_def split: option.splits)
qed

lemma split_ws_words:
  "(\<forall>c \<in> set cur. \<not> is_space c) \<Longrightarrow> w \<in> set (split_ws cur cs)
     \<Longrightarrow> w \<noteq> [] \<and> (\<forall>c \<in> set w. \<not> is_space c)"
proof (induction cur cs rule: split_ws.induct)
  case (1 cur)
  then show ?case by (cases "cur = []") auto
next
  case (2 cur c cs)
  have none: "\<forall>c \<in> set ([] :: string). \<not> is_space c" by simp
  show ?case
  proof (cases "is_space c")
    case True
    show ?thesis
    proof (cases "cur = []")
      case empty: True
      from "2.prems"(2) True empty have "w \<in> set (split_ws [] cs)" by simp
      with "2.IH"(1) [OF True empty none] show ?thesis .
    next
      case False
      from "2.prems"(2) True False have "w = rev cur \<or> w \<in> set (split_ws [] cs)" by simp
      then show ?thesis
      proof
        assume "w = rev cur"
        with False "2.prems"(1) show ?thesis by simp
      next
        assume "w \<in> set (split_ws [] cs)"
        with "2.IH"(2) [OF True False none] show ?thesis .
      qed
    qed
  next
    case False
    from "2.prems"(1) False have "\<forall>d \<in> set (c # cur). \<not> is_space d" by simp
    moreover from "2.prems"(2) False have "w \<in> set (split_ws (c # cur) cs)" by simp
    ultimately show ?thesis by (rule "2.IH"(3) [OF False])
  qed
qed

lemma is_space_cp_of_char: "is_space_cp (of_char c) = is_space c"
proof -
  have small: "(of_char c :: nat) < 256" by simp
  have high: "of_char c \<notin> set [0x1680, 0x2000, 0x2001, 0x2002, 0x2003, 0x2004, 0x2005, 0x2006,
      0x2007, 0x2008, 0x2009, 0x200A, 0x2028, 0x2029, 0x202F, 0x205F, 0x3000 :: nat]"
  proof
    assume "of_char c \<in> set [0x1680, 0x2000, 0x2001, 0x2002, 0x2003, 0x2004, 0x2005, 0x2006,
      0x2007, 0x2008, 0x2009, 0x200A, 0x2028, 0x2029, 0x202F, 0x205F, 0x3000 :: nat]"
    then have "(0x1680 :: nat) \<le> of_char c" by auto
    with small show False by linarith
  qed
  have "is_space_cp n \<longleftrightarrow>
      n \<in> of_char ` set [CHR 0x09, CHR 0x0A, CHR 0x0B, CHR 0x0C, CHR 0x0D,
               CHR 0x1C, CHR 0x1D, CHR 0x1E, CHR 0x1F, CHR 0x20, CHR 0x85, CHR 0xA0]
      \<or> n \<in> set [0x1680, 0x2000, 0x2001, 0x2002, 0x2003, 0x2004, 0x2005, 0x2006,
      0x2007, 0x2008, 0x2009, 0x200A, 0x2028, 0x2029, 0x202F, 0x205F, 0x3000 :: nat]" for n
    by (simp add: is_space_cp_def)
  with high have "is_space_cp (of_char c) \<longleftrightarrow>
      (of_char c :: nat) \<in> of_char ` set [CHR 0x09, CHR 0x0A, CHR 0x0B, CHR 0x0C, CHR 0x0D,
               CHR 0x1C, CHR 0x1D, CHR 0x1E, CHR 0x1F, CHR 0x20, CHR 0x85, CHR 0xA0]"
    by blast
  also have "\<dots> \<longleftrightarrow> is_space c"
    unfolding is_space_def by (rule inj_image_mem_iff) (rule inj_of_char)
  finally show ?thesis .
qed


lemma join_snoc: "xs \<noteq> [] \<Longrightarrow> join sep (xs @ [y]) = join sep xs @ sep @ y"
  by (induction sep xs rule: join.induct) simp_all

lemma join_nonempty: "xs \<noteq> [] \<Longrightarrow> last xs \<noteq> [] \<Longrightarrow> join sep xs \<noteq> []"
  by (induction sep xs rule: join.induct) simp_all

lemma join_last:
  "xs \<noteq> [] \<Longrightarrow> last xs \<noteq> [] \<Longrightarrow> last (join sep xs) = last (last xs)"
proof (induction sep xs rule: join.induct)
  case (3 sep x y ys)
  then have "join sep (y # ys) \<noteq> []" by (simp add: join_nonempty)
  with 3 show ?case by simp
qed simp_all

lemma join_hd: "x \<noteq> [] \<Longrightarrow> hd (join sep (x # xs)) = hd x"
  by (cases xs) simp_all

lemma strip_cp_trailing:
  assumes "s \<noteq> []" and "\<not> is_space_cp (hd s)" and "\<not> is_space_cp (last s)"
    and "\<forall>c \<in> set ws. is_space_cp c"
  shows "strip_cp (s @ ws) = s"
proof -
  from assms(1,2) have front: "dropWhile is_space_cp (s @ ws) = s @ ws" by (cases s) auto
  from assms(4) have rear: "dropWhile is_space_cp (rev ws @ rev s) = dropWhile is_space_cp (rev s)"
    by (intro dropWhile_append2) simp
  from assms(1,3) have "\<not> is_space_cp (hd (rev s))" by (simp add: hd_rev)
  moreover from assms(1) obtain a as where "rev s = a # as" by (cases "rev s") auto
  ultimately have "dropWhile is_space_cp (rev s) = rev s" by simp
  with front rear have "strip_cp (s @ ws) = rev (rev s)" by (simp add: strip_cp_def)
  then show ?thesis by simp
qed

lemma normalize_name_last:
  assumes "normalize_name name \<noteq> []"
  shows "\<not> is_space (last (normalize_name name))"
proof -
  let ?ws = "split_ws [] (strip name)"
  from assms have ne: "?ws \<noteq> []" by (auto simp: normalize_name_def)
  then have "last ?ws \<in> set ?ws" by simp
  then have w: "last ?ws \<noteq> [] \<and> (\<forall>c \<in> set (last ?ws). \<not> is_space c)"
    by (intro split_ws_words [of "[]"]) simp_all
  then have "last (normalize_name name) = last (last ?ws)"
    using ne by (simp add: normalize_name_def join_last)
  with w show ?thesis by simp
qed

lemma cp_inject: "cp a = cp b \<Longrightarrow> a = b"
  unfolding cp_def by (rule injD [OF inj_mapI [OF inj_of_char]])

lemma underline_hd:
  "\<exists>rest. concat (replicate (max 6 (min 22 (length store + 2))) UNDERLINE_CHAR) = 0x201A # rest"
proof -
  obtain m where "max 6 (min 22 (length store + 2)) = Suc m"
    by (cases "max 6 (min 22 (length store + 2))") auto
  then show ?thesis by (simp add: UNDERLINE_CHAR_def)
qed

lemma store_block_lines:
  assumes "l \<in> set (store_block s items)"
  shows "l = cp (''*'' @ s @ ''*'') \<or> l = [] \<or> (\<exists>rest. l = 0x201A # rest)"
proof -
  from underline_hd [of s] obtain rest
    where "concat (replicate (max 6 (min 22 (length s + 2))) UNDERLINE_CHAR) = 0x201A # rest" ..
  with assms show ?thesis by (auto simp: store_block_def CHECKBOX_BULLET_def)
qed

lemma header_line: "cp (''*'' @ s @ ''*'') = 42 # cp s @ [42]"
  by (simp add: cp_def)

lemma shown_stores_iff:
  assumes "set_iter_ok it"
  shows "store \<in> set (shown_stores it selected store_order) \<longleftrightarrow> item_set selected store \<noteq> {}"
proof -
  have key: "item_set selected store \<noteq> {} \<Longrightarrow> store \<in> set (keys selected)"
    by (auto simp: item_set_def split: option.splits dest: map_of_Some_key)
  have "selected_items it selected store \<noteq> [] \<longleftrightarrow> item_set selected store \<noteq> {}"
    using selected_items_set [OF assms, of selected store] by auto
  with key show ?thesis by (auto simp: shown_stores_def ordered_stores_set)
qed

lemma format_lines_blocks:
  "format_lines today it selected store_order =
     [cp (''Shopping List - '' @ today), []]
     @ concat (map (\<lambda>store. store_block store (selected_items it selected store))
         (shown_stores it selected store_order))"
  by (simp add: format_lines_def emit_stores_blocks shown_stores_def)

lemma no_header_line:
  assumes "set_iter_ok it" and "item_set selected store = {}"
  shows "cp (''*'' @ store @ ''*'') \<notin> set (format_lines today it selected store_order)"
proof
  let ?h = "cp (''*'' @ store @ ''*'')"
  assume "?h \<in> set (format_lines today it selected store_order)"
  then have "?h = cp (''Shopping List - '' @ today) \<or> ?h = []
      \<or> (\<exists>s \<in> set (shown_stores it selected store_order).
            ?h \<in> set (store_block s (selected_items it selected s)))"
    by (auto simp: format_lines_blocks)
  moreover have "?h \<noteq> cp (''Shopping List - '' @ today)" by (simp add: cp_def)
  moreover have "?h \<noteq> []" by (simp add: cp_def)
  ultimately obtain s where s: "s \<in> set (shown_stores it selected store_order)"
    and "?h \<in> set (store_block s (selected_items it selected s))" by blast
  from store_block_lines [OF this(2)] have "?h = cp (''*'' @ s @ ''*'')"
    by (auto simp: cp_def)
  then have "''*'' @ store @ ''*'' = ''*'' @ s @ ''*''" by (rule cp_inject)
  then have "s = store" by simp
  with s assms show False by (simp add: shown_stores_iff)
qed

lemma bullet_last:
  assumes "set_iter_ok it" and "i \<in> set (selected_items it selected store)"
  shows "CHECKBOX_BULLET @ cp '' '' @ cp i \<noteq> []"
    and "\<not> is_space_cp (last (CHECKBOX_BULLET @ cp '' '' @ cp i))"
proof -
  from assms have "i \<in> item_set selected store" by (simp add: selected_items_set)
  then obtain x where i: "i = normalize_name x" and ne: "i \<noteq> []"
    by (auto simp: item_set_def split: option.splits)
  from ne have "last (CHECKBOX_BULLET @ cp '' '' @ cp i) = of_char (last i)"
    by (simp add: cp_def last_map)
  moreover from i ne have "\<not> is_space (last i)" by (simp add: normalize_name_last)
  ultimately show "\<not> is_space_cp (last (CHECKBOX_BULLET @ cp '' '' @ cp i))"
    by (simp add: is_space_cp_of_char)
  show "CHECKBOX_BULLET @ cp '' '' @ cp i \<noteq> []" by (simp add: CHECKBOX_BULLET_def)
qed

lemma format_lines_last:
  assumes "set_iter_ok it" and "shown_stores it selected store_order \<noteq> []"
  shows "\<exists>pre. format_lines today it selected store_order
            = (cp (''Shopping List - '' @ today) # pre) @ [[]]
          \<and> last (cp (''Shopping List - '' @ today) # pre) \<noteq> []
          \<and> \<not> is_space_cp (last (last (cp (''Shopping List - '' @ today) # pre)))"
proof -
  let ?block = "\<lambda>store. store_block store (selected_items it selected store)"
  let ?bullet = "\<lambda>i. CHECKBOX_BULLET @ cp '' '' @ cp i"
  from assms(2) obtain stores s where shown: "shown_stores it selected store_order = stores @ [s]"
    by (cases "shown_stores it selected store_order" rule: rev_cases) auto
  then have "s \<in> set (shown_stores it selected store_order)" by simp
  then have "selected_items it selected s \<noteq> []" by (simp add: shown_stores_def)
  then obtain items i where items: "selected_items it selected s = items @ [i]"
    by (cases "selected_items it selected s" rule: rev_cases) auto
  then have "i \<in> set (selected_items it selected s)" by simp
  note bullet = bullet_last [OF assms(1) this]
  let ?pre = "[] # concat (map ?block stores)
      @ [cp (''*'' @ s @ ''*''), concat (replicate (max 6 (min 22 (length s + 2))) UNDERLINE_CHAR)]
      @ map ?bullet items @ [?bullet i]"
  have "format_lines today it selected store_order
      = (cp (''Shopping List - '' @ today) # ?pre) @ [[]]"
    by (simp add: format_lines_blocks shown store_block_def items)
  moreover have "last (cp (''Shopping List - '' @ today) # ?pre) = ?bullet i"
    by simp
  ultimately have "format_lines today it selected store_order
            = (cp (''Shopping List - '' @ today) # ?pre) @ [[]]
          \<and> last (cp (''Shopping List - '' @ today) # ?pre) \<noteq> []
          \<and> \<not> is_space_cp (last (last (cp (''Shopping List - '' @ today) # ?pre)))"
    using bullet by (simp only: simp_thms)
  then show ?thesis by (rule exI)
qed

lemma format_text:
  assumes "set_iter_ok it" and "shown_stores it selected store_order \<noteq> []"
  shows "format_shopping_list_for_whatsapp today it selected store_order
           = join [0x0A] (butlast (format_lines today it selected store_order))"
proof -
  let ?date = "cp (''Shopping List - '' @ today)"
  from format_lines_last [OF assms, of today] obtain pre
    where lines: "format_lines today it selected store_order = (?date # pre) @ [[]]"
      and ne: "last (?date # pre) \<noteq> []"
      and sp: "\<not> is_space_cp (last (last (?date # pre)))" by blast
  let ?text = "join [0x0A] (?date # pre)"
  have date: "?date \<noteq> []" by (simp add: cp_def)
  have "join [0x0A] ((?date # pre) @ [[]]) = ?text @ [0x0A] @ []"
    by (rule join_snoc) simp
  then have "join [0x0A] (format_lines today it selected store_order) = ?text @ [0x0A]"
    by (simp only: lines append_Nil2)
  moreover have "strip_cp (?text @ [0x0A]) = ?text"
  proof (rule strip_cp_trailing)
    from ne show "?text \<noteq> []" by (intro join_nonempty) simp_all
    from date have "hd ?text = hd ?date" by (rule join_hd)
    then show "\<not> is_space_cp (hd ?text)" by (simp add: cp_def is_space_cp_def)
    from ne have "last ?text = last (last (?date # pre))" by (intro join_last) simp_all
    with sp show "\<not> is_space_cp (last ?text)" by simp
    show "\<forall>c \<in> set [0x0A]. is_space_cp c" by (simp add: is_space_cp_def)
  qed
  moreover have "butlast (format_lines today it selected store_order) = ?date # pre"
    by (simp only: lines butlast_snoc)
  ultimately show ?thesis
    by (simp only: format_shopping_list_for_whatsapp_def)
qed

lemma append_missing_all: "set cs \<subseteq> set order \<Longrightarrow> append_missing order cs = order"
  by (induction cs arbitrary: order) simp_all

lemma ordered_stores_listed:
  assumes "set (keys stores) \<subseteq> set (visit_listed stores [] store_order)"
  shows "ordered_stores store_order stores = visit_listed stores [] store_order"
  unfolding ordered_stores_def using assms
  by (intro append_missing_all) (simp add: sorted_lower_props)

lemma selected_items_eval:
  assumes "set_iter_ok it"
  shows "all_items it [(c, [])] = []"
    and "normalize_name x = x \<Longrightarrow> x \<noteq> [] \<Longrightarrow> all_items it [(c, [x])] = [x]"
  using assms by (simp_all add: all_items_def set_iter_small sorted_lower_def)

section \<open>Stores without items and the date line\<close>

text \<open>
  C7: for every selection and every visit order, the lines of the formatter are the date
  line, an empty line and then one block for each store whose item set is not empty, each
  such store once and no other. No line is the header of a store whose flattened,
  normalized item set is empty. Whenever some store of the selection has an item left
  after normalization, there is at least one block, and the text returned is all these
  lines joined by line feeds, up to and without the empty line that ends the last block:
  it has the date line and every block.
\<close>

theorem format_skips_empty_stores:
  assumes "set_iter_ok it"
  shows "format_lines today it selected store_order
           = [cp (''Shopping List - '' @ today), []]
             @ concat (map (\<lambda>store. store_block store (selected_items it selected store))
                 (shown_stores it selected store_order))
       \<and> distinct (shown_stores it selected store_order)
       \<and> (\<forall>store. set (selected_items it selected store) = item_set selected store)
       \<and> (\<forall>store. store \<in> set (shown_stores it selected store_order)
             \<longleftrightarrow> item_set selected store \<noteq> {})
       \<and> (\<forall>store. item_set selected store = {} \<longrightarrow>
             cp (''*'' @ store @ ''*'') \<notin> set (format_lines today it selected store_order))
       \<and> (\<forall>store. item_set selected store \<noteq> {} \<longrightarrow>
             shown_stores it selected store_order \<noteq> []
             \<and> format_shopping_list_for_whatsapp today it selected store_order
                 = join [0x0A] (butlast (format_lines today it selected store_order)))"
proof -
  have shown: "item_set selected store \<noteq> {} \<Longrightarrow> shown_stores it selected store_order \<noteq> []"
    for store
    using shown_stores_iff [OF assms, of store selected store_order] by auto
  have "distinct (shown_stores it selected store_order)"
    by (simp add: shown_stores_def ordered_stores_distinct)
  moreover have "\<forall>store. item_set selected store = {} \<longrightarrow>
      cp (''*'' @ store @ ''*'') \<notin> set (format_lines today it selected store_order)"
    using no_header_line [OF assms] by blast
  moreover have "\<forall>store. item_set selected store \<noteq> {} \<longrightarrow>
      shown_stores it selected store_order \<noteq> []
      \<and> format_shopping_list_for_whatsapp today it selected store_order
          = join [0x0A] (butlast (format_lines today it selected store_order))"
    using shown format_text [OF assms] by blast
  ultimately show ?thesis
    using format_lines_blocks [of today it selected store_order]
      selected_items_set [OF assms, of selected] shown_stores_iff [OF assms, of _ selected store_order]
    by (simp only: simp_thms)
qed

theorem format_skips_empty_stores_witness:
  "set_iter_ok remdups
   \<and> item_set [(''Aldi'', [(''Veg'', ['' kale '', ''Kale''])]), (''Lidl'', [(''Veg'', ['' '']), (''Fish'', [])])]
       ''Lidl'' = {}
   \<and> cp ''*Lidl*'' \<notin> set (format_lines ''Feb 21, 2026'' remdups
       [(''Aldi'', [(''Veg'', ['' kale '', ''Kale''])]), (''Lidl'', [(''Veg'', ['' '']), (''Fish'', [])])]
       [''Lidl'', ''Aldi''])
   \<and> item_set [(''Aldi'', [(''Veg'', ['' kale '', ''Kale''])]), (''Lidl'', [(''Veg'', ['' '']), (''Fish'', [])])]
       ''Aldi'' = {''kale'', ''Kale''}
   \<and> ''Aldi'' \<in> set (shown_stores remdups
       [(''Aldi'', [(''Veg'', ['' kale '', ''Kale''])]), (''Lidl'', [(''Veg'', ['' '']), (''Fish'', [])])]
       [''Lidl'', ''Aldi''])
   \<and> format_shopping_list_for_whatsapp ''Feb 21, 2026'' remdups
       [(''Aldi'', [(''Veg'', ['' kale '', ''Kale''])]), (''Lidl'', [(''Veg'', ['' '']), (''Fish'', [])])]
       [''Lidl'', ''Aldi'']
     = join [0x0A] (butlast (format_lines ''Feb 21, 2026'' remdups
       [(''Aldi'', [(''Veg'', ['' kale '', ''Kale''])]), (''Lidl'', [(''Veg'', ['' '']), (''Fish'', [])])]
       [''Lidl'', ''Aldi'']))"
proof -
  let ?sel = "[(''Aldi'', [(''Veg'', ['' kale '', ''Kale''])]), (''Lidl'', [(''Veg'', ['' '']), (''Fish'', [])])]"
  have names: "normalize_name '' kale '' = ''kale''" "normalize_name ''Kale'' = ''Kale''"
    "normalize_name '' '' = []"
    by (simp_all add: normalize_name_def strip_def is_space_def)
  have lidl: "item_set ?sel ''Lidl'' = {}" by (simp add: item_set_def names)
  have aldi: "item_set ?sel ''Aldi'' = {''kale'', ''Kale''}" by (auto simp: item_set_def names)
  from aldi have some: "item_set ?sel ''Aldi'' \<noteq> {}" by simp
  note all = format_skips_empty_stores
    [OF set_iter_ok_remdups, of "''Feb 21, 2026''" ?sel "[''Lidl'', ''Aldi'']"]
  from all have "item_set ?sel ''Lidl'' = {} \<longrightarrow>
      cp (''*'' @ ''Lidl'' @ ''*'') \<notin> set (format_lines ''Feb 21, 2026'' remdups ?sel [''Lidl'', ''Aldi''])"
    by blast
  with lidl have header: "cp ''*Lidl*'' \<notin> set (format_lines ''Feb 21, 2026'' remdups ?sel [''Lidl'', ''Aldi''])"
    by simp
  from all have "''Aldi'' \<in> set (shown_stores remdups ?sel [''Lidl'', ''Aldi''])
      \<longleftrightarrow> item_set ?sel ''Aldi'' \<noteq> {}"
    by blast
  with some have shown: "''Aldi'' \<in> set (shown_stores remdups ?sel [''Lidl'', ''Aldi''])"
    by simp
  from all have "item_set ?sel ''Aldi'' \<noteq> {} \<longrightarrow>
      format_shopping_list_for_whatsapp ''Feb 21, 2026'' remdups ?sel [''Lidl'', ''Aldi'']
        = join [0x0A] (butlast (format_lines ''Feb 21, 2026'' remdups ?sel [''Lidl'', ''Aldi'']))"
    by blast
  with some have "format_shopping_list_for_whatsapp ''Feb 21, 2026'' remdups ?sel [''Lidl'', ''Aldi'']
        = join [0x0A] (butlast (format_lines ''Feb 21, 2026'' remdups ?sel [''Lidl'', ''Aldi'']))"
    by (rule mp [rotated])
  with set_iter_ok_remdups lidl header aldi shown show ?thesis
    by (intro conjI)
qed

section \<open>The scenario of Costco and Walmart\<close>

text \<open>
  C8, on the code: formatting the selection of the scenario with the order Walmart, Costco
  gives the date line, an empty line and a block for Costco only, with the header
  \<open>*Costco*\<close>, an underline of \<open>max 6 (min 22 (6 + 2)) = 8\<close> repetitions of \<open>UNDERLINE_CHAR\<close>
  and the one item line of \<open>CHECKBOX_BULLET\<close>, a space and \<open>Milk\<close>. The source writes
  \<open>UNDERLINE_CHAR\<close> with three code points, so the underline has 24 code points and not
  8, and the item line starts with the three code points of \<open>CHECKBOX_BULLET\<close>.
\<close>

theorem format_costco_walmart:
  assumes "set_iter_ok it"
  shows "format_lines today it
           [(''Costco'', [(''Dairy'', [''Milk''])]), (''Walmart'', [(''Produce'', [])])]
           [''Walmart'', ''Costco'']
         = [cp (''Shopping List - '' @ today), [], cp ''*Costco*'',
            concat (replicate 8 UNDERLINE_CHAR), CHECKBOX_BULLET @ cp '' Milk'', []]
       \<and> format_shopping_list_for_whatsapp today it
           [(''Costco'', [(''Dairy'', [''Milk''])]), (''Walmart'', [(''Produce'', [])])]
           [''Walmart'', ''Costco'']
         = join [0x0A] [cp (''Shopping List - '' @ today), [], cp ''*Costco*'',
            concat (replicate 8 UNDERLINE_CHAR), CHECKBOX_BULLET @ cp '' Milk'']
       \<and> concat (replicate 8 UNDERLINE_CHAR)
         = [0x201A, 0xC4, 0xEE, 0x201A, 0xC4, 0xEE, 0x201A, 0xC4, 0xEE, 0x201A, 0xC4, 0xEE,
            0x201A, 0xC4, 0xEE, 0x201A, 0xC4, 0xEE, 0x201A, 0xC4, 0xEE, 0x201A, 0xC4, 0xEE]
       \<and> length (concat (replicate 8 UNDERLINE_CHAR)) = 24
       \<and> CHECKBOX_BULLET @ cp '' Milk'' = [0x201A, 0xF2, 0xEA, 0x20, 0x4D, 0x69, 0x6C, 0x6B]"
proof -
  let ?sel = "[(''Costco'', [(''Dairy'', [''Milk''])]), (''Walmart'', [(''Produce'', [])])]"
  let ?order = "[''Walmart'', ''Costco'']"
  have milk: "normalize_name ''Milk'' = ''Milk''"
    by (simp add: normalize_name_def strip_def is_space_def)
  have order: "ordered_stores ?order ?sel = ?order"
    by (subst ordered_stores_listed) simp_all
  have items: "selected_items it ?sel ''Walmart'' = []" "selected_items it ?sel ''Costco'' = [''Milk'']"
    using selected_items_eval [OF assms] milk by (simp_all add: selected_items_def)
  then have shown: "shown_stores it ?sel ?order = [''Costco'']"
    by (simp add: shown_stores_def order)
  have count: "max 6 (min 22 (length ''Costco'' + 2)) = (8 :: nat)" by simp
  have block: "store_block ''Costco'' [''Milk'']
         = [cp ''*Costco*'', concat (replicate 8 UNDERLINE_CHAR), CHECKBOX_BULLET @ cp '' Milk'', []]"
    unfolding store_block_def count by (simp add: cp_def)
  have lines: "format_lines today it ?sel ?order
         = [cp (''Shopping List - '' @ today), [], cp ''*Costco*'',
            concat (replicate 8 UNDERLINE_CHAR), CHECKBOX_BULLET @ cp '' Milk'', []]"
    unfolding format_lines_blocks shown by (simp add: items block)
  from shown have "shown_stores it ?sel ?order \<noteq> []" by simp
  have rest: "butlast [a, b, c, d, e, f] = [a, b, c, d, e]" for a b c d e f :: ustring
    by simp
  from format_text [OF assms \<open>shown_stores it ?sel ?order \<noteq> []\<close>, of today]
  have msg: "format_shopping_list_for_whatsapp today it ?sel ?order
         = join [0x0A] [cp (''Shopping List - '' @ today), [], cp ''*Costco*'',
            concat (replicate 8 UNDERLINE_CHAR), CHECKBOX_BULLET @ cp '' Milk'']"
    by (simp only: lines rest)
  have eight: "replicate 8 x = [x, x, x, x, x, x, x, x]" for x :: ustring
    by (simp add: numeral_eq_Suc)
  have glyphs: "concat (replicate 8 UNDERLINE_CHAR)
         = [0x201A, 0xC4, 0xEE, 0x201A, 0xC4, 0xEE, 0x201A, 0xC4, 0xEE, 0x201A, 0xC4, 0xEE,
            0x201A, 0xC4, 0xEE, 0x201A, 0xC4, 0xEE, 0x201A, 0xC4, 0xEE, 0x201A, 0xC4, 0xEE]"
    "CHECKBOX_BULLET @ cp '' Milk'' = [0x201A, 0xF2, 0xEA, 0x20, 0x4D, 0x69, 0x6C, 0x6B]"
    by (simp_all add: eight UNDERLINE_CHAR_def CHECKBOX_BULLET_def cp_def)
  have len: "length (concat (replicate 8 UNDERLINE_CHAR)) = 24"
    by (simp add: eight UNDERLINE_CHAR_def)
  from lines msg glyphs(1) len glyphs(2) show ?thesis
    by (intro conjI)
qed

theorem format_costco_walmart_witness:
  "set_iter_ok remdups
   \<and> format_lines ''Feb 21, 2026'' remdups
       [(''Costco'', [(''Dairy'', [''Milk''])]), (''Walmart'', [(''Produce'', [])])]
       [''Walmart'', ''Costco'']
     = [cp ''Shopping List - Feb 21, 2026'', [], cp ''*Costco*'',
        concat (replicate 8 UNDERLINE_CHAR), CHECKBOX_BULLET @ cp '' Milk'', []]
   \<and> length (concat (replicate 8 UNDERLINE_CHAR)) = 24"
  using format_costco_walmart [OF set_iter_ok_remdups, of "''Feb 21, 2026''"] set_iter_ok_remdups
  by simp

section \<open>The selection after the catalog changes\<close>















end
